theory Spec2Isabelle
  imports Main
begin

section \<open>Strings of the engine adapter\<close>

text \<open>
  A JavaScript string is modelled as a \<open>string\<close> whose characters are read as code units
  below 256 (the UCI protocol is ASCII). The character classes are those of ECMAScript
  restricted to that range: \<open>\s\<close> is TAB, LF, VT, FF, CR, SPACE and NBSP; \<open>\d\<close> is
  \<open>0-9\<close>; \<open>\w\<close> is \<open>[A-Za-z0-9_]\<close>; \<open>.\<close> is everything but LF and CR.
\<close>

definition is_space :: "char \<Rightarrow> bool" where
  "is_space c \<longleftrightarrow> (let n = (of_char c :: nat) in (9 \<le> n \<and> n \<le> 13) \<or> n = 32 \<or> n = 160)"

definition is_digit :: "char \<Rightarrow> bool" where
  "is_digit c \<longleftrightarrow> (let n = (of_char c :: nat) in 48 \<le> n \<and> n \<le> 57)"

definition is_word :: "char \<Rightarrow> bool" where
  "is_word c \<longleftrightarrow> (let n = (of_char c :: nat) in
     (48 \<le> n \<and> n \<le> 57) \<or> (65 \<le> n \<and> n \<le> 90) \<or> (97 \<le> n \<and> n \<le> 122) \<or> n = 95)"

definition LF :: char where
  "LF = CHR 0x0A"

definition CR :: char where
  "CR = CHR 0x0D"

definition is_line_terminator :: "char \<Rightarrow> bool" where
  "is_line_terminator c \<longleftrightarrow> c = LF \<or> c = CR"

text \<open>\<open>String.prototype.trim\<close>: white space and line terminators go from both ends.\<close>

definition trim :: "string \<Rightarrow> string" where
  "trim s = rev (dropWhile is_space (rev (dropWhile is_space s)))"

definition startsWith :: "string \<Rightarrow> string \<Rightarrow> bool" where
  "startsWith s p \<longleftrightarrow> take (length p) s = p"

text \<open>\<open>Array.prototype.join\<close> on an array of strings.\<close>

fun join :: "string \<Rightarrow> string list \<Rightarrow> string" where
  "join sep [] = []"
| "join sep [x] = x"
| "join sep (x # y # ys) = x @ sep @ join sep (y # ys)"

text \<open>
  \<open>buffer.split(/\r?\n/)\<close>: the separator is a line feed together with the carriage return
  right before it, if there is one; the text between separators is kept, so the result
  is never empty and its last element is the text after the last separator.
\<close>

fun cons_first :: "char \<Rightarrow> string list \<Rightarrow> string list" where
  "cons_first c [] = [[c]]"
| "cons_first c (l # ls) = (c # l) # ls"

fun split_lines :: "string \<Rightarrow> string list" where
  "split_lines [] = [[]]"
| "split_lines [c] = (if c = LF then [[], []] else [[c]])"
| "split_lines (c # d # cs) =
     (if c = LF then [] # split_lines (d # cs)
      else if c = CR \<and> d = LF then [] # split_lines cs
      else cons_first c (split_lines (d # cs)))"

section \<open>Regular expressions\<close>

text \<open>
  The fragment of ECMAScript regular expressions the adapter uses, with the backtracking
  matcher of the language: \<open>+\<close> on a character class is greedy and gives characters
  back one at a time, \<open>?\<close> and \<open>|\<close> try their first choice first, a group records the
  text it consumed, \<open>\b\<close> holds where exactly one neighbour is a word character, and
  \<open>^\<close> and \<open>$\<close> are the ends of the input (no flag is set on any expression).
  The position is the previous character, if any, and the rest of the input.
\<close>

datatype cclass = Space | NonSpace | Digit | Dot

fun in_class :: "cclass \<Rightarrow> char \<Rightarrow> bool" where
  "in_class Space c = is_space c"
| "in_class NonSpace c = (\<not> is_space c)"
| "in_class Digit c = is_digit c"
| "in_class Dot c = (\<not> is_line_terminator c)"

datatype rx = Lit string | Plus cclass | Opt rx | Seq rx rx | Alt rx rx | Grp nat rx
  | WordB | Bol | Eol

type_synonym caps = "nat \<Rightarrow> string option"

type_synonym cont = "char option \<Rightarrow> string \<Rightarrow> caps \<Rightarrow> caps option"

fun word_at :: "char option \<Rightarrow> bool" where
  "word_at None = False"
| "word_at (Some c) = is_word c"

fun next_char :: "string \<Rightarrow> char option" where
  "next_char [] = None"
| "next_char (c # _) = Some c"

fun backoff :: "nat \<Rightarrow> string \<Rightarrow> caps \<Rightarrow> cont \<Rightarrow> caps option" where
  "backoff 0 r c k = None"
| "backoff (Suc j) r c k =
     (case k (Some (r ! j)) (drop (Suc j) r) c of
        Some res \<Rightarrow> Some res
      | None \<Rightarrow> backoff j r c k)"

fun m :: "rx \<Rightarrow> char option \<Rightarrow> string \<Rightarrow> caps \<Rightarrow> cont \<Rightarrow> caps option" where
  "m (Lit []) p r c k = k p r c"
| "m (Lit (a # w)) p [] c k = None"
| "m (Lit (a # w)) p (b # r) c k = (if a = b then m (Lit w) (Some b) r c k else None)"
| "m (Plus cl) p r c k = backoff (length (takeWhile (in_class cl) r)) r c k"
| "m (Opt x) p r c k = (case m x p r c k of Some res \<Rightarrow> Some res | None \<Rightarrow> k p r c)"
| "m (Seq x y) p r c k = m x p r c (\<lambda>p' r' c'. m y p' r' c' k)"
| "m (Alt x y) p r c k = (case m x p r c k of Some res \<Rightarrow> Some res | None \<Rightarrow> m y p r c k)"
| "m (Grp n x) p r c k =
     m x p r c (\<lambda>p' r' c'. k p' r' (c'(n \<mapsto> take (length r - length r') r)))"
| "m WordB p r c k = (if word_at p \<noteq> word_at (next_char r) then k p r c else None)"
| "m Bol p r c k = (if p = None then k p r c else None)"
| "m Eol p r c k = (if r = [] then k p r c else None)"

text \<open>\<open>String.prototype.match\<close> without the global flag: the leftmost start that matches.\<close>

fun search :: "rx \<Rightarrow> char option \<Rightarrow> string \<Rightarrow> caps option" where
  "search x p [] = m x p [] (\<lambda>_. None) (\<lambda>_ _ c. Some c)"
| "search x p (a # r) =
     (case m x p (a # r) (\<lambda>_. None) (\<lambda>_ _ c. Some c) of
        Some c \<Rightarrow> Some c
      | None \<Rightarrow> search x (Some a) r)"

definition js_match :: "string \<Rightarrow> rx \<Rightarrow> caps option" where
  "js_match s x = search x None s"

fun cat :: "rx list \<Rightarrow> rx" where
  "cat [] = Lit []"
| "cat [x] = x"
| "cat (x # y # xs) = Seq x (cat (y # xs))"

text \<open>\<^verbatim>\<open>/\bscore\s+(cp|mate)\s+(-?\d+)/\<close>\<close>

definition score_rx :: rx where
  "score_rx = cat [WordB, Lit ''score'', Plus Space, Grp 1 (Alt (Lit ''cp'') (Lit ''mate'')),
                  Plus Space, Grp 2 (Seq (Opt (Lit ''-'')) (Plus Digit))]"

text \<open>\<^verbatim>\<open>/\bdepth\s+(\d+)/\<close>\<close>

definition depth_rx :: rx where
  "depth_rx = cat [WordB, Lit ''depth'', Plus Space, Grp 1 (Plus Digit)]"

text \<open>\<^verbatim>\<open>/\bnodes\s+(\d+)/\<close>\<close>

definition nodes_rx :: rx where
  "nodes_rx = cat [WordB, Lit ''nodes'', Plus Space, Grp 1 (Plus Digit)]"

text \<open>\<^verbatim>\<open>/\bpv\s+(.+)$/\<close>\<close>

definition pv_rx :: rx where
  "pv_rx = cat [WordB, Lit ''pv'', Plus Space, Grp 1 (Plus Dot), Eol]"

text \<open>\<^verbatim>\<open>/^bestmove\s+(\S+)(?:\s+ponder\s+(\S+))?/\<close>\<close>

definition bestmove_rx :: rx where
  "bestmove_rx = cat [Bol, Lit ''bestmove'', Plus Space, Grp 1 (Plus NonSpace),
                     Opt (cat [Plus Space, Lit ''ponder'', Plus Space, Grp 2 (Plus NonSpace)])]"

section \<open>Numbers\<close>

text \<open>
  A Number is modelled by the integer it denotes. That is what the source computes as long
  as the magnitude stays below \<open>10 ^ 15\<close>: such an integer is a double, the double
  nearest to its quotient by 100 is less than a thousandth away from the quotient, so that
  \<open>toFixed(2)\<close> prints the hundredths of the integer, and \<open>String\<close> prints the
  integer digit for digit.
\<close>

definition digit_char :: "nat \<Rightarrow> char" where
  "digit_char d = ''0123456789'' ! d"

fun digits :: "nat \<Rightarrow> string" where
  "digits n = (if n < 10 then [digit_char n] else digits (n div 10) @ [digit_char (n mod 10)])"

text \<open>\<open>String(n)\<close>, as a template literal applies it to an integer.\<close>

definition num_str :: "int \<Rightarrow> string" where
  "num_str n = (if n < 0 then ''-'' @ digits (nat (- n)) else digits (nat n))"

definition digit_val :: "char \<Rightarrow> nat" where
  "digit_val c = of_char c - 48"

definition digits_val :: "string \<Rightarrow> nat" where
  "digits_val ds = foldl (\<lambda>n c. 10 * n + digit_val c) 0 ds"

text \<open>
  \<open>Number.parseInt(s, 10)\<close> on a capture of \<open>-?\d+\<close> or \<open>\d+\<close>: an optional minus
  sign, then the leading digits. The captures hold nothing else (\<open>parsed_score_shape\<close>,
  \<open>parsed_counters\<close>), so the result is never \<open>NaN\<close>.
\<close>

fun parseInt10 :: "string \<Rightarrow> int" where
  "parseInt10 [] = 0"
| "parseInt10 (c # cs) =
     (if c = CHR ''-'' then - int (digits_val (takeWhile is_digit cs))
      else int (digits_val (takeWhile is_digit (c # cs))))"

text \<open>
  \<open>(value / 100).toFixed(2)\<close>: the sign, then the decimal digits of the hundredths,
  padded with zeros to three digits, with the point before the last two.
\<close>

definition toFixed2 :: "int \<Rightarrow> string" where
  "toFixed2 v =
     (let n = nat \<bar>v\<bar>;
          ds = digits n;
          ds' = replicate (3 - length ds) CHR ''0'' @ ds;
          k = length ds'
      in (if v < 0 then ''-'' else []) @ take (k - 2) ds' @ ''.'' @ drop (k - 2) ds')"

section \<open>Engine locator\<close>

text \<open>
  What the adapter sees of its host: the \<open>STOCKFISH_PATH\<close> variable, the default path
  \<open>path.join(__dirname, 'bin', 'stockfish.exe')\<close>, \<open>fs.existsSync\<close>, the platform's
  \<open>path.basename\<close>, and the executables spawned so far, in order.
\<close>

record world =
  STOCKFISH_PATH :: "string option"
  DEFAULT_ENGINE_PATH :: string
  existsSync :: "string \<Rightarrow> bool"
  basename :: "string \<Rightarrow> string"
  spawned :: "string list"

definition STOCKFISH_WINDOWS_URL :: string where
  "STOCKFISH_WINDOWS_URL =
     ''https://github.com/official-stockfish/Stockfish/releases/download/sf_17.1/stockfish-windows-x86-64.zip''"

text \<open>\<open>process.env.STOCKFISH_PATH || DEFAULT_ENGINE_PATH\<close>: an unset or empty variable is falsy.\<close>

definition resolveEnginePath :: "world \<Rightarrow> string" where
  "resolveEnginePath w =
     (case STOCKFISH_PATH w of
        None \<Rightarrow> DEFAULT_ENGINE_PATH w
      | Some p \<Rightarrow> if p = [] then DEFAULT_ENGINE_PATH w else p)"

record engine_status =
  available :: bool
  enginePath :: string
  downloadUrl :: string

definition getEngineStatus :: "world \<Rightarrow> engine_status" where
  "getEngineStatus w =
     (let enginePath = resolveEnginePath w
      in \<lparr>available = existsSync w enginePath,
          enginePath = enginePath,
          downloadUrl = STOCKFISH_WINDOWS_URL\<rparr>)"

section \<open>Scores\<close>

text \<open>The object \<open>{ type, value, display }\<close> that \<open>parseScore\<close> returns.\<close>

record score =
  score_type :: string
  score_value :: int
  display :: string

text \<open>
  Reading a capture as a string. The groups that the source reads are set by every match
  of their expression (\<open>score_captures\<close>, \<open>counter_captures\<close>); the empty string
  stands for \<open>undefined\<close>, which is never read.
\<close>

definition cap :: "caps \<Rightarrow> nat \<Rightarrow> string" where
  "cap c n = (case c n of None \<Rightarrow> [] | Some t \<Rightarrow> t)"

definition parseScore :: "string \<Rightarrow> score option" where
  "parseScore line =
     (case js_match line score_rx of
        None \<Rightarrow> None
      | Some scoreMatch \<Rightarrow>
          (let type = cap scoreMatch 1;
               val = parseInt10 (cap scoreMatch 2);
               display =
                 (if type = ''cp''
                  then (let pawns = toFixed2 val
                        in (if val \<ge> 0 then ''+'' else []) @ pawns)
                  else ''M'' @ num_str val)
           in Some \<lparr>score_type = type, score_value = val, display = display\<rparr>))"

section \<open>The analysis session\<close>

text \<open>The argument of \<open>analyzePosition\<close>; \<open>depth = None\<close> is \<open>undefined\<close>.\<close>

record request =
  fen :: string
  moves :: "string list"
  depth :: "int option"
  movetime :: int

text \<open>The payload of a successful analysis; \<open>None\<close> is \<open>null\<close>. The field \<open>depth\<close>
  of the payload is \<open>res_depth\<close> here, the name \<open>depth\<close> being the request's.\<close>

record result =
  bestmove :: "string option"
  ponder :: "string option"
  evaluation :: "score option"
  res_depth :: "int option"
  nodes :: "int option"
  pv :: "string option"

datatype outcome = Resolve result | Reject string

text \<open>
  The variables of the closure (\<open>resolved\<close>, \<open>buffer\<close>, the four \<open>latest\<close> fields), and
  the effects of the session: what was written to the engine's input, how often
  \<open>engine.kill()\<close> ran, the calls of \<open>resolve\<close> and \<open>reject\<close> in order, whether the
  timeout is still pending, and whether the listeners on the engine's output and error
  streams are still attached.
\<close>

record session =
  resolved :: bool
  buffer :: string
  latestScore :: "score option"
  latestDepth :: "int option"
  latestNodes :: "int option"
  latestPv :: "string option"
  stdin :: "string list"
  kills :: nat
  settled :: "outcome list"
  timer :: bool
  listeners :: bool

definition timeoutMs :: "request \<Rightarrow> int" where
  "timeoutMs req = max 250 (movetime req + 1500)"

definition stdin_write :: "string \<Rightarrow> session \<Rightarrow> session" where
  "stdin_write t s = s\<lparr>stdin := stdin s @ [t]\<rparr>"

definition kill :: "session \<Rightarrow> session" where
  "kill s = s\<lparr>kills := Suc (kills s)\<rparr>"

definition settle :: "outcome \<Rightarrow> session \<Rightarrow> session" where
  "settle out s = s\<lparr>settled := settled s @ [out]\<rparr>"

definition on_timeout :: "session \<Rightarrow> session" where
  "on_timeout s =
     (if \<not> resolved s
      then settle (Reject ''Stockfish timed out.'') (kill (s\<lparr>resolved := True\<rparr>))
      else s)"

definition cleanup :: "session \<Rightarrow> session" where
  "cleanup s = s\<lparr>timer := False, listeners := False\<rparr>"

definition finish :: "result \<Rightarrow> session \<Rightarrow> session" where
  "finish payload s =
     (if resolved s then s
      else settle (Resolve payload) (kill (cleanup (s\<lparr>resolved := True\<rparr>))))"

definition moveList :: "request \<Rightarrow> string" where
  "moveList req = (if length (moves req) > 0 then '' moves '' @ join '' '' (moves req) else [])"

definition position_command :: "request \<Rightarrow> string" where
  "position_command req =
     (if fen req = ''startpos''
      then ''position startpos'' @ moveList req @ [LF]
      else ''position fen '' @ fen req @ moveList req @ [LF])"

text \<open>\<open>if (depth)\<close>: \<open>undefined\<close> and \<open>0\<close> are falsy.\<close>

definition go_command :: "request \<Rightarrow> string" where
  "go_command req =
     (case depth req of
        None \<Rightarrow> ''go movetime '' @ num_str (movetime req) @ [LF]
      | Some d \<Rightarrow>
          if d \<noteq> 0 then ''go depth '' @ num_str d @ [LF]
          else ''go movetime '' @ num_str (movetime req) @ [LF])"

definition scan_score :: "string \<Rightarrow> session \<Rightarrow> session" where
  "scan_score line s =
     (case parseScore line of None \<Rightarrow> s | Some sc \<Rightarrow> s\<lparr>latestScore := Some sc\<rparr>)"

definition depth_of :: "string \<Rightarrow> int option" where
  "depth_of line = map_option (\<lambda>depthMatch. parseInt10 (cap depthMatch 1)) (js_match line depth_rx)"

definition scan_depth :: "string \<Rightarrow> session \<Rightarrow> session" where
  "scan_depth line s =
     (case depth_of line of None \<Rightarrow> s | Some d \<Rightarrow> s\<lparr>latestDepth := Some d\<rparr>)"

definition nodes_of :: "string \<Rightarrow> int option" where
  "nodes_of line = map_option (\<lambda>nodesMatch. parseInt10 (cap nodesMatch 1)) (js_match line nodes_rx)"

definition scan_nodes :: "string \<Rightarrow> session \<Rightarrow> session" where
  "scan_nodes line s =
     (case nodes_of line of None \<Rightarrow> s | Some n \<Rightarrow> s\<lparr>latestNodes := Some n\<rparr>)"

definition pv_of :: "string \<Rightarrow> string option" where
  "pv_of line = map_option (\<lambda>pvMatch. cap pvMatch 1) (js_match line pv_rx)"

definition scan_pv :: "string \<Rightarrow> session \<Rightarrow> session" where
  "scan_pv line s =
     (case pv_of line of None \<Rightarrow> s | Some t \<Rightarrow> s\<lparr>latestPv := Some t\<rparr>)"

text \<open>\<open>match ? match[1] : null\<close> and \<open>match && match[2] ? match[2] : null\<close>.\<close>

definition bestmove_of :: "string \<Rightarrow> string option" where
  "bestmove_of line = (case js_match line bestmove_rx of None \<Rightarrow> None | Some mt \<Rightarrow> mt 1)"

definition ponder_of :: "string \<Rightarrow> string option" where
  "ponder_of line =
     (case js_match line bestmove_rx of
        None \<Rightarrow> None
      | Some mt \<Rightarrow> (case mt 2 of None \<Rightarrow> None | Some t \<Rightarrow> if t = [] then None else Some t))"

definition handleLine :: "request \<Rightarrow> string \<Rightarrow> session \<Rightarrow> session" where
  "handleLine req line s =
     (if line = [] then s
      else if line = ''uciok'' then stdin_write (''isready'' @ [LF]) s
      else if line = ''readyok''
      then stdin_write (go_command req) (stdin_write (position_command req) s)
      else if startsWith line ''info''
      then scan_pv line (scan_nodes line (scan_depth line (scan_score line s)))
      else if startsWith line ''bestmove''
      then finish \<lparr>bestmove = bestmove_of line,
                   ponder = ponder_of line,
                   evaluation = latestScore s,
                   res_depth = latestDepth s,
                   nodes = latestNodes s,
                   pv = latestPv s\<rparr> s
      else s)"

text \<open>The listener on the engine's output stream.\<close>

definition on_stdout :: "request \<Rightarrow> string \<Rightarrow> session \<Rightarrow> session" where
  "on_stdout req chunk s =
     (let lines = split_lines (buffer s @ chunk)
      in fold (\<lambda>line. handleLine req (trim line)) (butlast lines) (s\<lparr>buffer := last lines\<rparr>))"

text \<open>The listener on the engine's error stream.\<close>

definition on_stderr :: "string \<Rightarrow> session \<Rightarrow> session" where
  "on_stderr chunk s =
     (let message = trim chunk
      in if \<not> resolved s \<and> message \<noteq> []
         then settle (Reject message) (kill (cleanup (s\<lparr>resolved := True\<rparr>)))
         else s)"

text \<open>The listener on the child process's \<open>error\<close> event; the text is the error's message.\<close>

definition on_error :: "string \<Rightarrow> session \<Rightarrow> session" where
  "on_error err s =
     (if \<not> resolved s then settle (Reject err) (cleanup (s\<lparr>resolved := True\<rparr>)) else s)"

text \<open>
  What can happen to a session. A stream event reaches its listener while the listeners
  are attached, the timeout fires while it is pending (and is spent by firing), and
  the \<open>error\<close> listener is never removed.
\<close>

datatype event = Stdout string | Stderr string | ProcessError string | TimeoutFired

fun deliver :: "request \<Rightarrow> event \<Rightarrow> session \<Rightarrow> session" where
  "deliver req (Stdout chunk) s = (if listeners s then on_stdout req chunk s else s)"
| "deliver req (Stderr chunk) s = (if listeners s then on_stderr chunk s else s)"
| "deliver req (ProcessError err) s = on_error err s"
| "deliver req TimeoutFired s = (if timer s then on_timeout (s\<lparr>timer := False\<rparr>) else s)"

definition run :: "request \<Rightarrow> event list \<Rightarrow> session \<Rightarrow> session" where
  "run req evs s = fold (deliver req) evs s"

text \<open>The session right after \<open>spawn\<close>, once \<open>uci\<close> has been written.\<close>

definition spawn_session :: session where
  "spawn_session =
     \<lparr>resolved = False, buffer = [], latestScore = None, latestDepth = None,
      latestNodes = None, latestPv = None, stdin = [''uci'' @ [LF]], kills = 0,
      settled = [], timer = True, listeners = True\<rparr>"

definition NOT_FOUND :: string where
  "NOT_FOUND = ''Stockfish engine not found. Download it or set STOCKFISH_PATH.''"

text \<open>
  \<open>analyzePosition\<close> up to the end of the promise's executor: either the promise is
  rejected at once, or the engine is spawned and a session starts whose timeout is
  \<open>timeoutMs\<close>.
\<close>

datatype started = Rejected string | Running int session

definition analyzePosition :: "world \<Rightarrow> request \<Rightarrow> world \<times> started" where
  "analyzePosition w req =
     (let st = getEngineStatus w
      in if \<not> available st then (w, Rejected NOT_FOUND)
         else (w\<lparr>spawned := spawned w @ [enginePath st]\<rparr>,
               Running (timeoutMs req) spawn_session))"

text \<open>The calls of \<open>resolve\<close> and \<open>reject\<close> of one analysis, under the events \<open>evs\<close>.\<close>

definition analysis :: "world \<Rightarrow> request \<Rightarrow> event list \<Rightarrow> world \<times> outcome list" where
  "analysis w req evs =
     (case analyzePosition w req of
        (w', Rejected msg) \<Rightarrow> (w', [Reject msg])
      | (w', Running t s) \<Rightarrow> (w', settled (run req evs s)))"

section \<open>HTTP endpoints\<close>

text \<open>The JSON body of a request, a field being \<open>None\<close> when it is absent or of another type.\<close>

record body =
  body_fen :: "string option"
  body_moves :: "string list option"
  body_depth :: "int option"
  body_movetime :: "int option"

definition normalize :: "body \<Rightarrow> request" where
  "normalize b =
     \<lparr>fen = (case body_fen b of
               None \<Rightarrow> ''startpos''
             | Some f \<Rightarrow> if trim f \<noteq> [] then trim f else ''startpos''),
      moves = (case body_moves b of None \<Rightarrow> [] | Some ms \<Rightarrow> ms),
      depth = body_depth b,
      movetime = (case body_movetime b of None \<Rightarrow> 600 | Some t \<Rightarrow> t)\<rparr>"

datatype payload = Analysis result | Error string

record response =
  status :: nat
  json :: payload

text \<open>\<open>res.json(result)\<close> for a fulfilled promise, \<open>res.status(503).json(...)\<close> for a rejected one.\<close>

fun respond :: "outcome \<Rightarrow> response" where
  "respond (Resolve r) = \<lparr>status = 200, json = Analysis r\<rparr>"
| "respond (Reject msg) = \<lparr>status = 503, json = Error msg\<rparr>"

text \<open>
  \<open>POST /api/engine/analyze\<close>: the response is made from the first settlement of the
  promise; there is none while the promise is pending.
\<close>

definition post_analyze :: "world \<Rightarrow> body \<Rightarrow> event list \<Rightarrow> world \<times> response option" where
  "post_analyze w b evs =
     (case analysis w (normalize b) evs of
        (w', []) \<Rightarrow> (w', None)
      | (w', out # _) \<Rightarrow> (w', Some (respond out)))"

record status_response =
  sr_available :: bool
  sr_enginePath :: "string option"
  sr_downloadUrl :: string

text \<open>\<open>GET /api/engine/status\<close>.\<close>

definition get_status :: "world \<Rightarrow> world \<times> status_response" where
  "get_status w =
     (let st = getEngineStatus w
      in (w, \<lparr>sr_available = available st,
              sr_enginePath = (if available st then Some (basename w (enginePath st)) else None),
              sr_downloadUrl = downloadUrl st\<rparr>))"

section \<open>Invariant and sample inputs\<close>

text \<open>
  What holds of a session at every moment: once the flag is set there is exactly one
  settlement and at most one kill; before, nothing has been settled or killed and the
  timeout and the listeners are in place.
\<close>

definition session_inv :: "session \<Rightarrow> bool" where
  "session_inv s \<longleftrightarrow>
     (resolved s \<longrightarrow> length (settled s) = 1 \<and> kills s \<le> 1) \<and>
     (\<not> resolved s \<longrightarrow> settled s = [] \<and> kills s = 0 \<and> timer s \<and> listeners s)"

text \<open>A host for the examples: POSIX paths, the engine at its default path or missing.\<close>

definition posix_basename :: "string \<Rightarrow> string" where
  "posix_basename p = rev (takeWhile (\<lambda>c. c \<noteq> CHR ''/'') (rev p))"

definition host_with :: "bool \<Rightarrow> world" where
  "host_with installed =
     \<lparr>STOCKFISH_PATH = None, DEFAULT_ENGINE_PATH = ''/srv/Backend/bin/stockfish.exe'',
      existsSync = (\<lambda>p. installed \<and> p = ''/srv/Backend/bin/stockfish.exe''),
      basename = posix_basename, spawned = []\<rparr>"

definition sample_request :: request where
  "sample_request =
     \<lparr>fen = ''startpos'', moves = [''e2e4'', ''e7e5''], depth = None, movetime = 600\<rparr>"



text \<open>Dispatching complete lines, each trimmed, as the output listener does.\<close>

definition feed :: "request \<Rightarrow> string list \<Rightarrow> session \<Rightarrow> session" where
  "feed req ls s = fold (\<lambda>line. handleLine req (trim line)) ls s"










section \<open>One settlement per session\<close>

lemmas effect_defs = stdin_write_def kill_def settle_def cleanup_def finish_def
  scan_score_def scan_depth_def scan_nodes_def scan_pv_def

lemmas eval_defs = analysis_def analyzePosition_def getEngineStatus_def resolveEnginePath_def
  host_with_def sample_request_def run_def spawn_session_def on_stdout_def on_stderr_def
  on_error_def on_timeout_def handleLine_def effect_defs Let_def trim_def startsWith_def
  is_space_def is_digit_def is_word_def LF_def CR_def NOT_FOUND_def

lemma handleLine_resolved:
  "resolved s \<Longrightarrow>
     resolved (handleLine req l s) \<and> settled (handleLine req l s) = settled s
     \<and> kills (handleLine req l s) = kills s \<and> timer (handleLine req l s) = timer s
     \<and> listeners (handleLine req l s) = listeners s"
  by (simp add: handleLine_def effect_defs split: option.splits)

lemma handleLine_inv: "session_inv s \<Longrightarrow> session_inv (handleLine req l s)"
  by (auto simp add: handleLine_def effect_defs session_inv_def split: option.splits if_splits)

lemma fold_handleLine_inv:
  "session_inv s \<Longrightarrow> session_inv (fold (\<lambda>line. handleLine req (f line)) ls s)"
  by (induction ls arbitrary: s) (simp_all add: handleLine_inv)

lemma fold_handleLine_resolved:
  "resolved s \<Longrightarrow>
     resolved (fold (\<lambda>line. handleLine req (f line)) ls s)
     \<and> settled (fold (\<lambda>line. handleLine req (f line)) ls s) = settled s
     \<and> kills (fold (\<lambda>line. handleLine req (f line)) ls s) = kills s"
  by (induction ls arbitrary: s) (simp_all add: handleLine_resolved)

lemma deliver_inv: "session_inv s \<Longrightarrow> session_inv (deliver req e s)"
proof (cases e)
  case (Stdout chunk)
  assume "session_inv s"
  then have "session_inv (s\<lparr>buffer := last (split_lines (buffer s @ chunk))\<rparr>)"
    by (simp add: session_inv_def)
  then show ?thesis using Stdout \<open>session_inv s\<close>
    by (simp add: on_stdout_def Let_def fold_handleLine_inv)
next
  case (Stderr chunk)
  assume "session_inv s"
  then show ?thesis using Stderr
    by (auto simp add: on_stderr_def Let_def effect_defs session_inv_def)
next
  case (ProcessError err)
  assume "session_inv s"
  then show ?thesis using ProcessError
    by (auto simp add: on_error_def effect_defs session_inv_def)
next
  case TimeoutFired
  assume "session_inv s"
  then show ?thesis using TimeoutFired
    by (auto simp add: on_timeout_def effect_defs session_inv_def)
qed

lemma deliver_resolved:
  "resolved s \<Longrightarrow>
     resolved (deliver req e s) \<and> settled (deliver req e s) = settled s
     \<and> kills (deliver req e s) = kills s"
proof (cases e)
  case (Stdout chunk)
  assume r: "resolved s"
  then have "resolved (s\<lparr>buffer := last (split_lines (buffer s @ chunk))\<rparr>)" by simp
  from fold_handleLine_resolved [OF this, where f = trim] show ?thesis using Stdout r
    by (simp add: on_stdout_def Let_def)
qed (simp_all add: on_stderr_def on_error_def on_timeout_def Let_def)

lemma run_inv: "session_inv s \<Longrightarrow> session_inv (run req evs s)"
  unfolding run_def by (induction evs arbitrary: s) (simp_all add: deliver_inv)

lemma run_resolved:
  "resolved s \<Longrightarrow>
     resolved (run req evs s) \<and> settled (run req evs s) = settled s
     \<and> kills (run req evs s) = kills s"
  unfolding run_def by (induction evs arbitrary: s) (simp_all add: deliver_resolved)

lemma spawn_session_inv: "session_inv spawn_session"
  by (simp add: session_inv_def spawn_session_def)

lemma run_append: "run req (evs1 @ evs2) s = run req evs2 (run req evs1 s)"
  by (simp add: run_def)

lemma reachable_inv: "session_inv (run req evs spawn_session)"
  by (rule run_inv [OF spawn_session_inv])

lemma analysis_running:
  "available (getEngineStatus w) \<Longrightarrow>
     snd (analysis w req evs) = settled (run req evs spawn_session)"
  by (simp add: analysis_def analyzePosition_def Let_def)

lemma analysis_rejected:
  "\<not> available (getEngineStatus w) \<Longrightarrow> analysis w req evs = (w, [Reject NOT_FOUND])"
  by (simp add: analysis_def analyzePosition_def Let_def)

text \<open>
  C1. Whatever events reach an analysis, in whatever order, \<open>resolve\<close> and \<open>reject\<close>
  are called at most once between them; once one of them has been called, no later event
  (a \<open>bestmove\<close> line, the timeout, error-stream data, a process error) adds a call; the
  flag \<open>resolved\<close> is set exactly when a call has been made; and the engine is killed at
  most once.
\<close>

theorem single_terminal_outcome:
  "length (snd (analysis w req (evs @ later))) \<le> 1 \<and>
   (snd (analysis w req evs) \<noteq> [] \<longrightarrow>
      snd (analysis w req (evs @ later)) = snd (analysis w req evs)) \<and>
   (resolved (run req evs spawn_session) \<longleftrightarrow> settled (run req evs spawn_session) \<noteq> []) \<and>
   kills (run req evs spawn_session) \<le> 1"
proof (cases "available (getEngineStatus w)")
  case False
  have i: "session_inv (run req evs spawn_session)" by (rule reachable_inv)
  from i have "resolved (run req evs spawn_session) \<longleftrightarrow> settled (run req evs spawn_session) \<noteq> []"
    by (auto simp add: session_inv_def)
  moreover from i have "kills (run req evs spawn_session) \<le> 1"
    by (auto simp add: session_inv_def)
  ultimately show ?thesis using False by (simp add: analysis_rejected)
next
  case True
  let ?s = "run req evs spawn_session"
  have i: "session_inv ?s" by (rule reachable_inv)
  have j: "session_inv (run req (evs @ later) spawn_session)" by (rule reachable_inv)
  have a: "length (settled (run req (evs @ later) spawn_session)) \<le> 1"
    using j by (auto simp add: session_inv_def)
  have b: "settled ?s \<noteq> [] \<longrightarrow> settled (run req (evs @ later) spawn_session) = settled ?s"
  proof
    assume "settled ?s \<noteq> []"
    with i have "resolved ?s" by (auto simp add: session_inv_def)
    from run_resolved [OF this, of req later]
    show "settled (run req (evs @ later) spawn_session) = settled ?s"
      by (simp add: run_append)
  qed
  have c: "resolved ?s \<longleftrightarrow> settled ?s \<noteq> []" using i by (auto simp add: session_inv_def)
  have d: "kills ?s \<le> 1" using i by (auto simp add: session_inv_def)
  show ?thesis using a b c d True by (simp add: analysis_running)
qed

theorem single_terminal_outcome_witness:
  "snd (analysis (host_with True) sample_request [Stdout (''bestmove e2e4'' @ [LF])]) \<noteq> [] \<and>
   snd (analysis (host_with True) sample_request
          ([Stdout (''bestmove e2e4'' @ [LF])] @ [TimeoutFired, Stderr ''late'', ProcessError ''late'']))
     = snd (analysis (host_with True) sample_request [Stdout (''bestmove e2e4'' @ [LF])])"
proof -
  have h: "snd (analysis (host_with True) sample_request [Stdout (''bestmove e2e4'' @ [LF])]) \<noteq> []"
    by (simp add: eval_defs)
  with single_terminal_outcome [of "host_with True" sample_request
      "[Stdout (''bestmove e2e4'' @ [LF])]" "[TimeoutFired, Stderr ''late'', ProcessError ''late'']"]
  show ?thesis by blast
qed

declare digits.simps [simp del]

lemma join_concat: "join sep (t # ts) = t @ concat (map (\<lambda>x. sep @ x) ts)"
  by (induction ts arbitrary: t) simp_all

lemma handleLine_readyok:
  "handleLine req ''readyok'' s = stdin_write (go_command req) (stdin_write (position_command req) s)"
  by (simp add: handleLine_def)

lemma stdin_readyok:
  "stdin (handleLine req ''readyok'' s) = stdin s @ [position_command req, go_command req]"
  by (simp add: handleLine_readyok stdin_write_def)

section \<open>Commands written after readyok\<close>




text \<open>
  C6. The first command written on \<open>readyok\<close> is the position command. It begins
  \<open>position startpos\<close> when the position is the initial layout and
  \<open>position fen <fen>\<close> otherwise; with no move tokens nothing follows but the line
  feed; otherwise \<open> moves \<close> follows, then the tokens in their order, one space
  between neighbours.
\<close>

theorem position_command_written:
  "stdin (handleLine req ''readyok'' s) ! length (stdin s) =
     (if fen req = ''startpos'' then ''position startpos'' else ''position fen '' @ fen req)
     @ (case moves req of [] \<Rightarrow> [] | t # ts \<Rightarrow> '' moves '' @ t @ concat (map (\<lambda>x. '' '' @ x) ts))
     @ [LF]"
proof -
  have "moveList req =
      (case moves req of [] \<Rightarrow> [] | t # ts \<Rightarrow> '' moves '' @ t @ concat (map (\<lambda>x. '' '' @ x) ts))"
    unfolding moveList_def by (cases "moves req") (simp_all only: join_concat list.case list.size, simp_all)
  then show ?thesis
    by (simp add: stdin_readyok position_command_def)
qed

theorem position_command_written_witness:
  "stdin (handleLine sample_request ''readyok'' spawn_session) ! length (stdin spawn_session)
     = ''position startpos moves e2e4 e7e5'' @ [LF] \<and>
   stdin (handleLine \<lparr>fen = ''8/8/8/8/8/8/8/K6k w - - 0 1'', moves = [], depth = None, movetime = 600\<rparr>
            ''readyok'' spawn_session) ! length (stdin spawn_session)
     = ''position fen 8/8/8/8/8/8/8/K6k w - - 0 1'' @ [LF]"
  using position_command_written [of sample_request spawn_session]
    position_command_written [of "\<lparr>fen = ''8/8/8/8/8/8/8/K6k w - - 0 1'', moves = [], depth = None, movetime = 600\<rparr>" spawn_session]
  by (simp add: sample_request_def)

section \<open>Engine locator and endpoints\<close>

text \<open>
  C7. When nothing exists at the resolved engine path, \<open>analyzePosition\<close> rejects with
  the "engine not found" message and leaves the host as it was (nothing is spawned), and
  \<open>POST /api/engine/analyze\<close> answers 503 with that message, whatever the body.
\<close>

theorem engine_not_found:
  "\<not> existsSync w (resolveEnginePath w) \<Longrightarrow>
     analyzePosition w req = (w, Rejected NOT_FOUND) \<and>
     post_analyze w b evs = (w, Some \<lparr>status = 503, json = Error NOT_FOUND\<rparr>) \<and>
     spawned (fst (post_analyze w b evs)) = spawned w"
  by (simp add: post_analyze_def analysis_def analyzePosition_def getEngineStatus_def Let_def)

theorem engine_not_found_witness:
  "\<not> existsSync (host_with False) (resolveEnginePath (host_with False)) \<and>
   snd (analyzePosition (host_with False) sample_request) = Rejected NOT_FOUND \<and>
   snd (post_analyze (host_with False) \<lparr>body_fen = None, body_moves = None, body_depth = None, body_movetime = None\<rparr> [])
     = Some \<lparr>status = 503, json = Error ''Stockfish engine not found. Download it or set STOCKFISH_PATH.''\<rparr> \<and>
   spawned (fst (post_analyze (host_with False) \<lparr>body_fen = None, body_moves = None, body_depth = None, body_movetime = None\<rparr> [])) = []"
proof -
  have h: "\<not> existsSync (host_with False) (resolveEnginePath (host_with False))"
    by (simp add: host_with_def)
  from engine_not_found [OF h, of sample_request
      "\<lparr>body_fen = None, body_moves = None, body_depth = None, body_movetime = None\<rparr>" "[]"] h
  show ?thesis by (simp add: NOT_FOUND_def host_with_def)
qed

text \<open>
  C9. The status operation reports as availability whether the resolved engine path exists,
  together with that path and the download URL; the status endpoint leaves the host as it
  was (nothing is spawned) and answers with the availability, the basename of the path
  when available and null when not, and the download URL.
\<close>

theorem status_operation:
  "getEngineStatus w =
     \<lparr>available = existsSync w (resolveEnginePath w), enginePath = resolveEnginePath w,
      downloadUrl = STOCKFISH_WINDOWS_URL\<rparr> \<and>
   fst (get_status w) = w \<and>
   snd (get_status w) =
     \<lparr>sr_available = existsSync w (resolveEnginePath w),
      sr_enginePath = (if existsSync w (resolveEnginePath w)
                       then Some (basename w (resolveEnginePath w)) else None),
      sr_downloadUrl = STOCKFISH_WINDOWS_URL\<rparr>"
  by (simp add: get_status_def getEngineStatus_def Let_def)

theorem status_operation_witness:
  "snd (get_status (host_with True)) =
     \<lparr>sr_available = True, sr_enginePath = Some ''stockfish.exe'', sr_downloadUrl = STOCKFISH_WINDOWS_URL\<rparr> \<and>
   spawned (fst (get_status (host_with True))) = [] \<and>
   snd (get_status (host_with False)) =
     \<lparr>sr_available = False, sr_enginePath = None, sr_downloadUrl = STOCKFISH_WINDOWS_URL\<rparr>"
  using status_operation [of "host_with True"] status_operation [of "host_with False"]
  by (simp add: host_with_def resolveEnginePath_def posix_basename_def)

section \<open>Scores and their display\<close>



lemma length_digits_large: "10 \<le> n \<Longrightarrow> 2 \<le> length (digits n)"
  by (subst digits.simps) (simp add: digits.simps [of "n div 10"])




lemmas score_eval = parseScore_def js_match_def score_rx_def cap_def Let_def is_space_def
  is_digit_def is_word_def digits_val_def digit_val_def toFixed2_def num_str_def
  digits.simps digit_char_def

section \<open>The bestmove line\<close>

lemma in_class_Space: "in_class Space = is_space"
  by (rule ext) simp

lemma backoff_none:
  "(\<And>j. j < n \<Longrightarrow> k (Some (r ! j)) (drop (Suc j) r) c = None) \<Longrightarrow> backoff n r c k = None"
  by (induction n) simp_all

lemma backoff_some:
  "k (Some (r ! n)) (drop (Suc n) r) c \<noteq> None \<Longrightarrow> backoff (Suc n) r c k \<noteq> None"
  by (cases "k (Some (r ! n)) (drop (Suc n) r) c") simp_all

lemma search_bol: "search (Seq Bol x) (Some a) r = None"
  by (induction r arbitrary: a) simp_all

lemma m_Lit: "m (Lit w) p (w @ r) c k = k (if w = [] then p else Some (last w)) r c"
  by (induction w arbitrary: p) simp_all

lemma anchored_keyword:
  "js_match ((a # w) @ rest) (Seq Bol (Seq (Lit (a # w)) (Seq (Plus cl) y))) = None \<longleftrightarrow>
     backoff (length (takeWhile (in_class cl) rest)) rest (\<lambda>_. None)
       (\<lambda>p r c. m y p r c (\<lambda>_ _ c. Some c)) = None"
proof -
  have "m (Seq Bol (Seq (Lit (a # w)) (Seq (Plus cl) y))) None ((a # w) @ rest) c k =
        backoff (length (takeWhile (in_class cl) rest)) rest c (\<lambda>p r c. m y p r c k)" for c k
    using m_Lit [of "a # w" None rest] by (simp del: backoff.simps)
  then show ?thesis
    by (simp only: js_match_def append_Cons search.simps search_bol split: option.splits) simp
qed

lemma token_then_optional:
  "r \<noteq> [] \<Longrightarrow> \<not> is_space (hd r) \<Longrightarrow>
     m (Seq (Grp n (Plus NonSpace)) (Opt x)) p r c (\<lambda>_ _ c. Some c) \<noteq> None"
proof -
  assume a: "r \<noteq> []" and b: "\<not> is_space (hd r)"
  then obtain t where t: "length (takeWhile (in_class NonSpace) r) = Suc t"
    by (cases r) simp_all
  have "backoff (Suc t) r c
     (\<lambda>p' r' c'. m (Opt x) p' r' (c'(n \<mapsto> take (length r - length r') r)) (\<lambda>_ _ c. Some c)) \<noteq> None"
    by (rule backoff_some) (simp split: option.splits)
  then show ?thesis
    by (simp add: t del: backoff.simps)
qed

lemma no_token_after_spaces:
  "r \<noteq> [] \<Longrightarrow> is_space (hd r) \<Longrightarrow> m (Seq (Grp n (Plus NonSpace)) y) p r c k = None"
  by (cases r) simp_all

lemma no_token_at_end: "m (Seq (Grp n (Plus NonSpace)) y) p [] c k = None"
  by simp

lemma bestmove_match_iff:
  "js_match (''bestmove'' @ rest) bestmove_rx = None \<longleftrightarrow>
     (takeWhile is_space rest = [] \<or> dropWhile is_space rest = [])"
proof -
  let ?y = "Seq (Grp 1 (Plus NonSpace))
              (Opt (cat [Plus Space, Lit ''ponder'', Plus Space, Grp 2 (Plus NonSpace)]))"
  let ?k = "\<lambda>p r c. m ?y p r c (\<lambda>_ _ c. Some c)"
  have rx: "bestmove_rx = Seq Bol (Seq (Lit ''bestmove'') (Seq (Plus Space) ?y))"
    by (simp add: bestmove_rx_def)
  have start: "js_match (''bestmove'' @ rest) bestmove_rx = None \<longleftrightarrow>
      backoff (length (takeWhile is_space rest)) rest (\<lambda>_. None) ?k = None"
    unfolding rx using anchored_keyword [of "CHR ''b''" "''estmove''" rest Space ?y]
    by (simp add: in_class_Space del: m.simps backoff.simps cat.simps)
  show ?thesis
  proof (cases "takeWhile is_space rest = []")
    case True
    then have "js_match (''bestmove'' @ rest) bestmove_rx = None"
      by (simp only: start list.size backoff.simps)
    then show ?thesis using True by (simp only: simp_thms)
  next
    case False
    define n where "n = length (takeWhile is_space rest) - 1"
    have n: "length (takeWhile is_space rest) = Suc n" using False by (simp add: n_def)
    have dr: "drop (Suc n) rest = dropWhile is_space rest"
      by (metis n dropWhile_eq_drop)
    show ?thesis
    proof (cases "dropWhile is_space rest = []")
      case True
      have "backoff (Suc n) rest (\<lambda>_. None) ?k = None"
      proof (rule backoff_none)
        fix j assume j: "j < Suc n"
        from True have all: "\<forall>c\<in>set rest. is_space c" by (simp add: dropWhile_eq_Nil_conv)
        then have "\<forall>c\<in>set (drop (Suc j) rest). is_space c" by (meson in_set_dropD)
        then have "drop (Suc j) rest = [] \<or> is_space (hd (drop (Suc j) rest))"
          by (cases "drop (Suc j) rest") simp_all
        then show "?k (Some (rest ! j)) (drop (Suc j) rest) (\<lambda>_. None) = None"
          using no_token_after_spaces no_token_at_end by metis
      qed
      then have "js_match (''bestmove'' @ rest) bestmove_rx = None"
        by (simp only: start n)
      then show ?thesis using True by (simp only: simp_thms)
    next
      case F2: False
      then have "\<not> is_space (hd (dropWhile is_space rest))" by (rule hd_dropWhile)
      have "?k (Some (rest ! n)) (drop (Suc n) rest) (\<lambda>_. None) \<noteq> None"
        unfolding dr by (rule token_then_optional [OF F2 \<open>\<not> is_space (hd (dropWhile is_space rest))\<close>])
      then have "backoff (Suc n) rest (\<lambda>_. None) ?k \<noteq> None"
        by (rule backoff_some)
      then have "js_match (''bestmove'' @ rest) bestmove_rx \<noteq> None"
        by (simp only: start n not_False_eq_True)
      then show ?thesis using False F2 by (simp only: simp_thms)
    qed
  qed
qed

lemma starts_bestmove:
  "startsWith line ''bestmove'' \<longleftrightarrow> (\<exists>rest. line = ''bestmove'' @ rest)"
proof
  assume "startsWith line ''bestmove''"
  then have "take (length ''bestmove'') line = ''bestmove''" by (simp only: startsWith_def)
  then have "line = ''bestmove'' @ drop (length ''bestmove'') line"
    by (metis append_take_drop_id)
  then show "\<exists>rest. line = ''bestmove'' @ rest" ..
next
  assume "\<exists>rest. line = ''bestmove'' @ rest"
  then show "startsWith line ''bestmove''" by (auto simp add: startsWith_def)
qed

lemma bestmove_branch:
  "handleLine req (''bestmove'' @ rest) s =
     finish \<lparr>bestmove = bestmove_of (''bestmove'' @ rest),
             ponder = ponder_of (''bestmove'' @ rest),
             evaluation = latestScore s, res_depth = latestDepth s,
             nodes = latestNodes s, pv = latestPv s\<rparr> s"
  by (simp add: handleLine_def startsWith_def)

text \<open>
  C10. A line that begins with \<open>bestmove\<close> and has no token after the keyword (the keyword
  is not followed by white space, or only white space follows) still resolves a session
  that had not resolved: \<open>resolve\<close> is called with bestmove and ponder null and the
  evaluation, depth, nodes and pv accumulated so far, and the engine is killed.
\<close>

theorem bestmove_without_token:
  "\<not> resolved s \<Longrightarrow> takeWhile is_space rest = [] \<or> dropWhile is_space rest = [] \<Longrightarrow>
     settled (handleLine req (''bestmove'' @ rest) s) =
       settled s @ [Resolve \<lparr>bestmove = None, ponder = None, evaluation = latestScore s,
                             res_depth = latestDepth s, nodes = latestNodes s, pv = latestPv s\<rparr>] \<and>
     resolved (handleLine req (''bestmove'' @ rest) s) \<and>
     kills (handleLine req (''bestmove'' @ rest) s) = Suc (kills s)"
proof -
  assume a: "\<not> resolved s" and b: "takeWhile is_space rest = [] \<or> dropWhile is_space rest = []"
  from b have "js_match (''bestmove'' @ rest) bestmove_rx = None"
    by (simp only: bestmove_match_iff)
  then have "bestmove_of (''bestmove'' @ rest) = None" "ponder_of (''bestmove'' @ rest) = None"
    by (simp_all only: bestmove_of_def ponder_of_def option.case)
  with a show ?thesis
    by (simp only: bestmove_branch) (simp add: effect_defs)
qed

theorem bestmove_without_token_witness:
  "\<not> resolved (run sample_request [Stdout (''info depth 3 score cp 12 nodes 99 pv e2e4'' @ [LF])] spawn_session) \<and>
   (takeWhile is_space [] = [] \<or> dropWhile is_space [] = []) \<and>
   settled (handleLine sample_request (''bestmove'' @ [])
      (run sample_request [Stdout (''info depth 3 score cp 12 nodes 99 pv e2e4'' @ [LF])] spawn_session))
    = [Resolve \<lparr>bestmove = None, ponder = None,
                 evaluation = Some \<lparr>score_type = ''cp'', score_value = 12, display = ''+0.12''\<rparr>,
                 res_depth = Some 3, nodes = Some 99, pv = Some ''e2e4''\<rparr>]"
proof -
  let ?s = "run sample_request [Stdout (''info depth 3 score cp 12 nodes 99 pv e2e4'' @ [LF])] spawn_session"
  have s: "?s = spawn_session\<lparr>latestScore := Some \<lparr>score_type = ''cp'', score_value = 12, display = ''+0.12''\<rparr>,
                 latestDepth := Some 3, latestNodes := Some 99, latestPv := Some ''e2e4''\<rparr>"
    by (simp add: eval_defs score_eval depth_of_def nodes_of_def pv_of_def depth_rx_def nodes_rx_def pv_rx_def
        is_line_terminator_def)
  have a: "\<not> resolved ?s" by (simp only: s) (simp add: spawn_session_def)
  have b: "takeWhile is_space [] = [] \<or> dropWhile is_space [] = []" by simp
  from bestmove_without_token [OF a b, of sample_request] a b show ?thesis
    by (simp only: s) (simp add: spawn_session_def)
qed

section \<open>The output stream, line by line\<close>




lemma CR_not_LF: "CR \<noteq> LF"
  by (simp add: CR_def LF_def)











lemma buffer_handleLine: "buffer (handleLine req l s) = buffer s"
  by (simp add: handleLine_def effect_defs split: option.splits)

lemma buffer_feed: "buffer (feed req ls s) = buffer s"
  unfolding feed_def by (induction ls arbitrary: s) (simp_all add: buffer_handleLine)































section \<open>Failure paths\<close>

text \<open>
  C8, as stated, fails: a chunk on the error stream that is only white space (here a single
  line feed) is dropped by the test \<open>!resolved && message\<close>; the session neither fails
  nor kills the engine.
\<close>

theorem stderr_blank_counterexample:
  "settled (run sample_request [Stderr [LF]] spawn_session) = [] \<and>
   kills (run sample_request [Stderr [LF]] spawn_session) = 0 \<and>
   \<not> resolved (run sample_request [Stderr [LF]] spawn_session)"
  by (simp add: eval_defs)

text \<open>
  C8, amended. If the session has not resolved and the engine writes to its error stream a
  chunk that is not only white space, the session is rejected with that chunk, trimmed, as
  the message, and the engine is killed, once.
\<close>

theorem stderr_fails_session:
  "\<not> resolved (run req evs spawn_session) \<Longrightarrow> trim chunk \<noteq> [] \<Longrightarrow>
     settled (run req (evs @ [Stderr chunk]) spawn_session) = [Reject (trim chunk)] \<and>
     kills (run req (evs @ [Stderr chunk]) spawn_session) = 1 \<and>
     resolved (run req (evs @ [Stderr chunk]) spawn_session)"
proof -
  assume a: "\<not> resolved (run req evs spawn_session)" and b: "trim chunk \<noteq> []"
  have "session_inv (run req evs spawn_session)" by (rule reachable_inv)
  with a have "settled (run req evs spawn_session) = [] \<and> kills (run req evs spawn_session) = 0
     \<and> listeners (run req evs spawn_session)"
    by (simp add: session_inv_def)
  with a b show ?thesis
    by (simp add: run_append) (simp add: run_def on_stderr_def Let_def effect_defs)
qed

theorem stderr_fails_session_witness:
  "\<not> resolved (run sample_request [Stdout ''uciok''] spawn_session) \<and>
   trim ('' Illegal option '' @ [LF]) \<noteq> [] \<and>
   settled (run sample_request ([Stdout ''uciok''] @ [Stderr ('' Illegal option '' @ [LF])]) spawn_session)
     = [Reject ''Illegal option''] \<and>
   kills (run sample_request ([Stdout ''uciok''] @ [Stderr ('' Illegal option '' @ [LF])]) spawn_session) = 1"
proof -
  have a: "\<not> resolved (run sample_request [Stdout ''uciok''] spawn_session)"
    by (simp add: eval_defs)
  have b: "trim ('' Illegal option '' @ [LF]) = ''Illegal option''"
    by (simp add: trim_def is_space_def LF_def)
  then have c: "trim ('' Illegal option '' @ [LF]) \<noteq> []" by simp
  from stderr_fails_session [OF a c] a b show ?thesis by simp
qed








section \<open>The score field of an info line\<close>







lemma takeWhile_all: "list_all P xs \<Longrightarrow> takeWhile P xs = xs"
  by (induction xs) simp_all


lemma minus_not_digit: "\<not> is_digit CHR ''-''"
  by (simp add: is_digit_def)









lemma score_rx_unfold:
  "score_rx = Seq WordB (Seq (Lit ''score'') (Seq (Plus Space)
     (Seq (Grp 1 (Alt (Lit ''cp'') (Lit ''mate'')))
        (Seq (Plus Space) (Grp 2 (Seq (Opt (Lit ''-'')) (Plus Digit)))))))"
  by (simp add: score_rx_def)










section \<open>What the captures hold\<close>

text \<open>
  Whatever the line, a match of the score expression sets both groups, the first to
  \<open>cp\<close> or \<open>mate\<close> and the second to digits after an optional minus sign, and a
  match of the depth or nodes expression sets its group to digits: \<open>parseInt10\<close> is
  only ever applied to such text, and no capture that is read is unset.
\<close>

lemma backoff_SomeD:
  "backoff n r c k = Some res \<Longrightarrow> \<exists>j<n. k (Some (r ! j)) (drop (Suc j) r) c = Some res"
proof (induction n)
  case 0
  then show ?case by simp
next
  case (Suc n)
  show ?case
  proof (cases "k (Some (r ! n)) (drop (Suc n) r) c")
    case None
    with Suc.prems have "backoff n r c k = Some res" by simp
    from Suc.IH [OF this] show ?thesis using less_Suc_eq by auto
  next
    case (Some a)
    with Suc.prems have "k (Some (r ! n)) (drop (Suc n) r) c = Some res" by simp
    then show ?thesis by blast
  qed
qed

lemma take_takeWhile_all:
  "j < length (takeWhile P r) \<Longrightarrow> list_all P (take (Suc j) r)"
proof -
  assume a: "j < length (takeWhile P r)"
  have "take (Suc j) r = take (Suc j) (takeWhile P r @ dropWhile P r)" by simp
  also have "\<dots> = take (Suc j) (takeWhile P r)" using a by (simp only: take_append) simp
  finally show ?thesis
    by (auto simp add: list_all_iff dest: in_set_takeD set_takeWhileD)
qed

lemma plus_SomeD:
  assumes "m (Plus cl) p r c k = Some res"
  shows "\<exists>xs r'. r = xs @ r' \<and> xs \<noteq> [] \<and> list_all (in_class cl) xs
           \<and> k (Some (last xs)) r' c = Some res"
proof -
  from assms have "backoff (length (takeWhile (in_class cl) r)) r c k = Some res" by simp
  from backoff_SomeD [OF this] obtain j where
    j: "j < length (takeWhile (in_class cl) r)" "k (Some (r ! j)) (drop (Suc j) r) c = Some res"
    by blast
  from j(1) have jr: "j < length r" using length_takeWhile_le [of "in_class cl" r] by simp
  let ?xs = "take (Suc j) r"
  have "r = ?xs @ drop (Suc j) r" by simp
  moreover have "?xs \<noteq> []" using jr by auto
  moreover have "list_all (in_class cl) ?xs" using j(1) by (rule take_takeWhile_all)
  moreover have "last ?xs = r ! j" using jr by (simp add: take_Suc_conv_app_nth)
  ultimately show ?thesis using j(2) by metis
qed

lemma lit_SomeD:
  "m (Lit w) p r c k = Some res \<Longrightarrow>
     \<exists>r'. r = w @ r' \<and> k (if w = [] then p else Some (last w)) r' c = Some res"
proof (induction w arbitrary: p r)
  case Nil
  then show ?case by simp
next
  case (Cons a w)
  then obtain r0 where r: "r = a # r0" "m (Lit w) (Some a) r0 c k = Some res"
    by (cases r) (auto split: if_splits)
  from Cons.IH [OF r(2)] obtain r' where
    "r0 = w @ r'" "k (if w = [] then Some a else Some (last w)) r' c = Some res" by blast
  then show ?case using r(1) by auto
qed

lemma search_SomeD:
  "search x p r = Some res \<Longrightarrow> \<exists>q r'. m x q r' (\<lambda>_. None) (\<lambda>_ _ c. Some c) = Some res"
proof (induction r arbitrary: p)
  case Nil
  then show ?case by auto
next
  case (Cons a r)
  show ?case
  proof (cases "m x p (a # r) (\<lambda>_. None) (\<lambda>_ _ c. Some c)")
    case None
    with Cons.prems have "search x (Some a) r = Some res" by simp
    from Cons.IH [OF this] show ?thesis .
  next
    case (Some c)
    with Cons.prems have "m x p (a # r) (\<lambda>_. None) (\<lambda>_ _ c. Some c) = Some res" by simp
    then show ?thesis by blast
  qed
qed

lemma alt_SomeD:
  "m (Alt x y) p r c k = Some res \<Longrightarrow> m x p r c k = Some res \<or> m y p r c k = Some res"
  by (cases "m x p r c k") simp_all

lemma opt_SomeD:
  "m (Opt x) p r c k = Some res \<Longrightarrow> m x p r c k = Some res \<or> k p r c = Some res"
  by (cases "m x p r c k") simp_all

lemma digits_group_SomeD:
  assumes "m (Grp g (Plus Digit)) p r c (\<lambda>_ _ c. Some c) = Some res"
  shows "\<exists>ds. ds \<noteq> [] \<and> list_all is_digit ds \<and> res = c(g \<mapsto> ds)"
proof -
  from assms have "m (Plus Digit) p r c
      (\<lambda>p' r' c'. Some (c'(g \<mapsto> take (length r - length r') r))) = Some res"
    by (simp del: m.simps(4))
  from plus_SomeD [OF this] obtain ds r' where
    "r = ds @ r'" "ds \<noteq> []" "list_all (in_class Digit) ds"
    "Some (c(g \<mapsto> take (length r - length r') r)) = Some res" by blast
  then show ?thesis by (auto simp add: list_all_iff)
qed

lemma number_group_SomeD:
  assumes "m (Grp g (Seq (Opt (Lit ''-'')) (Plus Digit))) p r c (\<lambda>_ _ c. Some c) = Some res"
  shows "\<exists>ds. ds \<noteq> [] \<and> list_all is_digit ds \<and> (res = c(g \<mapsto> ds) \<or> res = c(g \<mapsto> ''-'' @ ds))"
proof -
  let ?K = "\<lambda>(p'::char option) r' c'. Some (c'(g \<mapsto> take (length r - length r') r))"
  from assms have "m (Opt (Lit ''-'')) p r c (\<lambda>p' r' c'. m (Plus Digit) p' r' c' ?K) = Some res"
    by (simp del: m.simps(4) m.simps(5))
  from opt_SomeD [OF this]
  consider (minus) "m (Lit ''-'') p r c (\<lambda>p' r' c'. m (Plus Digit) p' r' c' ?K) = Some res"
    | (plain) "m (Plus Digit) p r c ?K = Some res" by blast
  then show ?thesis
  proof cases
    case minus
    from lit_SomeD [OF this] obtain r0 where
      r0: "r = ''-'' @ r0" "m (Plus Digit) (Some CHR ''-'') r0 c ?K = Some res" by auto
    from plus_SomeD [OF r0(2)] obtain ds r' where
      "r0 = ds @ r'" "ds \<noteq> []" "list_all (in_class Digit) ds"
      "?K (Some (last ds)) r' c = Some res" by blast
    then show ?thesis using r0(1) by (auto simp add: list_all_iff)
  next
    case plain
    from plus_SomeD [OF this] obtain ds r' where
      "r = ds @ r'" "ds \<noteq> []" "list_all (in_class Digit) ds"
      "?K (Some (last ds)) r' c = Some res" by blast
    then show ?thesis by (auto simp add: list_all_iff)
  qed
qed

lemma score_captures:
  assumes "js_match line score_rx = Some c"
  shows "(c 1 = Some ''cp'' \<or> c 1 = Some ''mate'') \<and>
         (\<exists>ds. ds \<noteq> [] \<and> list_all is_digit ds \<and> (c 2 = Some ds \<or> c 2 = Some (''-'' @ ds)))"
proof -
  let ?G2 = "Grp 2 (Seq (Opt (Lit ''-'')) (Plus Digit))"
  let ?k = "\<lambda>(_::char option) (_::string) (c::caps). Some c"
  let ?K3 = "\<lambda>p r c. m (Seq (Plus Space) ?G2) p r c ?k"
  from assms obtain q r where "m score_rx q r (\<lambda>_. None) ?k = Some c"
    unfolding js_match_def using search_SomeD by blast
  then have "m (Lit ''score'') q r (\<lambda>_. None)
      (\<lambda>p r c. m (Plus Space) p r c
         (\<lambda>p r c. m (Grp 1 (Alt (Lit ''cp'') (Lit ''mate''))) p r c ?K3)) = Some c"
    unfolding score_rx_unfold by (simp only: m.simps(6) m.simps(9) option.simps split: if_splits)
  from lit_SomeD [OF this] obtain r1 q1 where
    "m (Plus Space) q1 r1 (\<lambda>_. None)
       (\<lambda>p r c. m (Grp 1 (Alt (Lit ''cp'') (Lit ''mate''))) p r c ?K3) = Some c" by blast
  from plus_SomeD [OF this] obtain q2 r2 where
    "m (Grp 1 (Alt (Lit ''cp'') (Lit ''mate''))) q2 r2 (\<lambda>_. None) ?K3 = Some c" by blast
  then have "m (Alt (Lit ''cp'') (Lit ''mate'')) q2 r2 (\<lambda>_. None)
      (\<lambda>p' r' c'. ?K3 p' r' (c'(1 \<mapsto> take (length r2 - length r') r2))) = Some c"
    by (simp only: m.simps(8))
  from alt_SomeD [OF this] obtain t where t: "t = ''cp'' \<or> t = ''mate''"
    and "m (Lit t) q2 r2 (\<lambda>_. None)
      (\<lambda>p' r' c'. ?K3 p' r' (c'(1 \<mapsto> take (length r2 - length r') r2))) = Some c" by blast
  from lit_SomeD [OF this(2)] obtain r3 q3 where
    r3: "r2 = t @ r3" "?K3 q3 r3 ((\<lambda>_. None)(1 \<mapsto> take (length r2 - length r3) r2)) = Some c"
    by blast
  have "take (length r2 - length r3) r2 = t" by (simp add: r3(1))
  with r3(2) have "m (Plus Space) q3 r3 ((\<lambda>_. None)(1 \<mapsto> t))
      (\<lambda>p r c. m ?G2 p r c ?k) = Some c"
    by (simp only: m.simps(6))
  from plus_SomeD [OF this] obtain q4 r4 where
    "m ?G2 q4 r4 ((\<lambda>_. None)(1 \<mapsto> t)) ?k = Some c" by blast
  from number_group_SomeD [OF this] obtain ds where
    "ds \<noteq> []" "list_all is_digit ds"
    "c = (\<lambda>_. None)(1 \<mapsto> t, 2 \<mapsto> ds) \<or> c = (\<lambda>_. None)(1 \<mapsto> t, 2 \<mapsto> ''-'' @ ds)" by blast
  with t show ?thesis by auto
qed

lemma parseInt10_digits:
  "ds \<noteq> [] \<Longrightarrow> list_all is_digit ds \<Longrightarrow>
     parseInt10 ds = int (digits_val ds) \<and> parseInt10 (''-'' @ ds) = - int (digits_val ds)"
proof -
  assume a: "ds \<noteq> []" and b: "list_all is_digit ds"
  then obtain d ds' where d: "ds = d # ds'" "is_digit d" by (cases ds) simp_all
  then have "d \<noteq> CHR ''-''" using minus_not_digit by auto
  then show ?thesis using takeWhile_all [OF b] by (simp add: d(1))
qed

lemma parsed_score_shape:
  assumes "parseScore line = Some sc"
  shows "(score_type sc = ''cp'' \<or> score_type sc = ''mate'') \<and>
         (\<exists>ds. ds \<noteq> [] \<and> list_all is_digit ds \<and>
            (score_value sc = int (digits_val ds) \<or> score_value sc = - int (digits_val ds)))"
proof -
  from assms obtain c where c: "js_match line score_rx = Some c"
    and sc: "score_type sc = cap c 1" "score_value sc = parseInt10 (cap c 2)"
    by (auto simp add: parseScore_def Let_def split: option.splits)
  from score_captures [OF c] obtain ds where
    t: "c 1 = Some ''cp'' \<or> c 1 = Some ''mate''" and
    ds: "ds \<noteq> []" "list_all is_digit ds" "c 2 = Some ds \<or> c 2 = Some (''-'' @ ds)" by blast
  from t sc(1) have "score_type sc = ''cp'' \<or> score_type sc = ''mate''"
    by (auto simp add: cap_def)
  moreover from ds(3) sc(2) parseInt10_digits [OF ds(1,2)]
  have "score_value sc = int (digits_val ds) \<or> score_value sc = - int (digits_val ds)"
    by (auto simp add: cap_def)
  ultimately show ?thesis using ds(1,2) by blast
qed

lemma counter_captures:
  assumes "js_match line (cat [WordB, Lit kw, Plus Space, Grp 1 (Plus Digit)]) = Some c"
  shows "\<exists>ds. ds \<noteq> [] \<and> list_all is_digit ds \<and> c 1 = Some ds"
proof -
  let ?k = "\<lambda>(_::char option) (_::string) (c::caps). Some c"
  from assms obtain q r where
    "m (Seq WordB (Seq (Lit kw) (Seq (Plus Space) (Grp 1 (Plus Digit))))) q r (\<lambda>_. None) ?k = Some c"
    unfolding js_match_def using search_SomeD by (metis cat.simps(2,3))
  then have "m (Lit kw) q r (\<lambda>_. None)
      (\<lambda>p r c. m (Plus Space) p r c (\<lambda>p r c. m (Grp 1 (Plus Digit)) p r c ?k)) = Some c"
    by (simp only: m.simps(6) m.simps(9) option.simps split: if_splits)
  from lit_SomeD [OF this] obtain r1 q1 where
    "m (Plus Space) q1 r1 (\<lambda>_. None) (\<lambda>p r c. m (Grp 1 (Plus Digit)) p r c ?k) = Some c" by blast
  from plus_SomeD [OF this] obtain q2 r2 where
    "m (Grp 1 (Plus Digit)) q2 r2 (\<lambda>_. None) ?k = Some c" by blast
  from digits_group_SomeD [OF this] show ?thesis by auto
qed

lemma parsed_counters:
  "depth_of line = Some d \<Longrightarrow> \<exists>ds. ds \<noteq> [] \<and> list_all is_digit ds \<and> d = int (digits_val ds)"
  "nodes_of line = Some n \<Longrightarrow> \<exists>ds. ds \<noteq> [] \<and> list_all is_digit ds \<and> n = int (digits_val ds)"
proof -
  assume "depth_of line = Some d"
  then obtain c where "js_match line depth_rx = Some c" "d = parseInt10 (cap c 1)"
    by (auto simp add: depth_of_def)
  with counter_captures [of line "''depth''" c] parseInt10_digits
  show "\<exists>ds. ds \<noteq> [] \<and> list_all is_digit ds \<and> d = int (digits_val ds)"
    by (auto simp add: depth_rx_def cap_def simp del: cat.simps)
next
  assume "nodes_of line = Some n"
  then obtain c where "js_match line nodes_rx = Some c" "n = parseInt10 (cap c 1)"
    by (auto simp add: nodes_of_def)
  with counter_captures [of line "''nodes''" c] parseInt10_digits
  show "\<exists>ds. ds \<noteq> [] \<and> list_all is_digit ds \<and> n = int (digits_val ds)"
    by (auto simp add: nodes_rx_def cap_def simp del: cat.simps)
qed

end
